theory Spec2Isabelle
  imports Main "HOL-Library.Word" "HOL-Library.Signed_Division" "HOL-Library.Monad_Syntax"
begin

unbundle bit_operations_syntax

section \<open>The pseudo-random generator of sys\_arch.c\<close>

text \<open>
  \<^verbatim>\<open>__rand\<close> computes in the C type \<^verbatim>\<open>long\<close>. The width of \<^verbatim>\<open>long\<close> is a
  parameter \<open>w\<close> of the model (64 on the LP64 targets of the kernel, 32 elsewhere).
  Signed overflow has no defined result in C, so every arithmetic result is checked
  against the range of \<^verbatim>\<open>long\<close>: \<open>to_long\<close> is \<open>None\<close> when the mathematical
  result does not fit, and the whole computation is then \<open>None\<close>.
\<close>

definition long_range :: "nat \<Rightarrow> int \<Rightarrow> bool" where
  "long_range w x \<longleftrightarrow> - (2 ^ (w - 1)) \<le> x \<and> x < 2 ^ (w - 1)"

definition to_long :: "nat \<Rightarrow> int \<Rightarrow> int option" where
  "to_long w x = (if long_range w x then Some x else None)"

text \<open>
  \<^verbatim>\<open>static void __rand_init(void) { rand_seed = get_rdtsc() % 127; }\<close>
  The cycle counter is an input of the model.
\<close>

definition rand_init :: "64 word \<Rightarrow> 32 word" where
  "rand_init tsc = ucast (tsc mod 127)"

text \<open>
  \<^verbatim>\<open>
  static inline int __rand(unsigned int *seed)
  {
        long k;
        long s = (long)(*seed);
        if (s == 0)
          s = 0x12345987;
        k = s / 127773;
        s = 16807 * (s - k * 127773) - 2836 * k;
        if (s < 0)
          s += 2147483647;
        (*seed) = (unsigned int)s;
        return (int)(s & RAND_MAX);
  }
  \<close>
  The model takes the value of \<^verbatim>\<open>*seed\<close> and returns the value stored back together
  with the returned \<^verbatim>\<open>int\<close>. The conversion of the unsigned seed to \<^verbatim>\<open>long\<close> keeps
  the value when it fits and wraps otherwise; \<^verbatim>\<open>/\<close> truncates towards zero (\<open>sdiv\<close>).
\<close>

definition rand :: "nat \<Rightarrow> 32 word \<Rightarrow> (32 word \<times> int) option" where
  "rand w seed = do {
     let s0 = signed_take_bit (w - 1) (uint seed);
     let s1 = (if s0 = 0 then 0x12345987 else s0);
     k \<leftarrow> to_long w (s1 sdiv 127773);
     kq \<leftarrow> to_long w (k * 127773);
     d \<leftarrow> to_long w (s1 - kq);
     a \<leftarrow> to_long w (16807 * d);
     b \<leftarrow> to_long w (2836 * k);
     s2 \<leftarrow> to_long w (a - b);
     s3 \<leftarrow> (if s2 < 0 then to_long w (s2 + 2147483647) else Some s2);
     Some (word_of_int s3, s3 AND 0x7fffffff)
   }"

text \<open>
  \<^verbatim>\<open>
  int lwip_rand(void)
  {
        int r;
  #ifdef __x86_64__
        if (has_rdrand()) {
                r = rdrand() % RAND_MAX;
                return r;
        }
  #endif
        spinlock_irqsave_lock(&rand_lock);
        r = __rand(&rand_seed);
        spinlock_irqsave_unlock(&rand_lock);
        return r;
  }
  \<close>
  The hardware instruction is an input: \<open>Some v\<close> when \<^verbatim>\<open>has_rdrand()\<close> holds and
  \<^verbatim>\<open>rdrand()\<close> delivers \<open>v\<close>, \<open>None\<close> for the software path. The result is the
  returned value and the new content of \<^verbatim>\<open>rand_seed\<close>.
\<close>

definition lwip_rand :: "nat \<Rightarrow> 32 word option \<Rightarrow> 32 word \<Rightarrow> (int \<times> 32 word) option" where
  "lwip_rand w rdrand rand_seed =
     (case rdrand of
        Some v \<Rightarrow> Some (uint v mod 0x7fffffff, rand_seed)
      | None \<Rightarrow>
          (case rand w rand_seed of
             None \<Rightarrow> None
           | Some (seed', r) \<Rightarrow> Some (r, seed')))"

text \<open>
  The static variable \<^verbatim>\<open>rand_seed\<close> is written in two places only: by
  \<^verbatim>\<open>__rand_init\<close> (called from \<^verbatim>\<open>sys_init\<close>) and by \<^verbatim>\<open>__rand\<close> through
  \<^verbatim>\<open>lwip_rand\<close>. \<open>seed_after_calls\<close> runs a sequence of calls of
  \<^verbatim>\<open>lwip_rand\<close>, one for each entry of the list, which says what the hardware
  instruction answers in that call; \<open>stored_seed\<close> is the content of
  \<^verbatim>\<open>rand_seed\<close> after initialisation with the cycle counter \<open>tsc\<close> and such a
  sequence of calls. (The variable's static initial value 0 is also what
  \<^verbatim>\<open>__rand_init\<close> stores for a cycle counter of 0.)
\<close>

fun seed_after_calls :: "nat \<Rightarrow> 32 word option list \<Rightarrow> 32 word \<Rightarrow> 32 word option" where
  "seed_after_calls w [] rand_seed = Some rand_seed"
| "seed_after_calls w (rdrand # calls) rand_seed =
     (case lwip_rand w rdrand rand_seed of
        None \<Rightarrow> None
      | Some (r, seed') \<Rightarrow> seed_after_calls w calls seed')"

definition stored_seed :: "nat \<Rightarrow> 64 word \<Rightarrow> 32 word option list \<Rightarrow> 32 word option" where
  "stored_seed w tsc calls = seed_after_calls w calls (rand_init tsc)"

text \<open>
  The recurrence as the specification words it: the minimal standard generator
  \<open>I[j+1] = 16807 * I[j] mod (2^31 - 1)\<close>.
\<close>

definition lcg_spec :: "int \<Rightarrow> int" where
  "lcg_spec s = (16807 * s) mod 2147483647"

text \<open>Schrage's form of the same step, on mathematical integers.\<close>

definition schrage :: "int \<Rightarrow> int" where
  "schrage s = (let t = 16807 * (s mod 127773) - 2836 * (s div 127773)
                in if t < 0 then t + 2147483647 else t)"


section \<open>The uhyve network driver of uhyve-net.c\<close>

type_synonym u8 = "8 word"
type_synonym u16 = "16 word"

text \<open>
  The values of \<^verbatim>\<open>err_t\<close> the two files use. The numbers behind the names are
  those of \<^verbatim>\<open>lwip/err.h\<close>, which is not among the sources; only the names matter.
\<close>

datatype err_t = ERR_OK | ERR_MEM | ERR_VAL | ERR_IF

subsection \<open>Decoding the hardware address\<close>

text \<open>
  \<^verbatim>\<open>
  static inline uint8_t dehex(char c)
  {
        if (c >= '0' && c <= '9')
                return (c - '0');
        else if (c >= 'a' && c <= 'f')
                return 10 + (c - 'a');
        else if (c >= 'A' && c <= 'F')
                return 10 + (c - 'A');
        else
                return 0;
  }
  \<close>
  A character is compared by its code. A character above 127 (negative where
  \<^verbatim>\<open>char\<close> is signed) passes none of the three tests under either reading.
\<close>

definition dehex :: "char \<Rightarrow> u8" where
  "dehex c =
     (if (of_char CHR ''0'' :: nat) \<le> of_char c \<and> (of_char c :: nat) \<le> of_char CHR ''9''
        then of_nat (of_char c - of_char CHR ''0'')
      else if (of_char CHR ''a'' :: nat) \<le> of_char c \<and> (of_char c :: nat) \<le> of_char CHR ''f''
        then 10 + of_nat (of_char c - of_char CHR ''a'')
      else if (of_char CHR ''A'' :: nat) \<le> of_char c \<and> (of_char c :: nat) \<le> of_char CHR ''F''
        then 10 + of_nat (of_char c - of_char CHR ''A'')
      else 0)"

text \<open>
  \<^verbatim>\<open>hermit_net_mac_str\<close> copies the 18 bytes of the hypervisor's answer into the
  static buffer \<^verbatim>\<open>mac_str[18]\<close> and returns it.
\<close>

definition hermit_net_mac_str :: "string \<Rightarrow> string" where
  "hermit_net_mac_str uhyve_netinfo = take 18 uhyve_netinfo"

text \<open>
  Modelled from the spec: \<^verbatim>\<open>ETHARP_HWADDR_LEN\<close> is a constant of the header
  \<^verbatim>\<open>netif/etharp.h\<close>, which is not among the sources; the specification's hardware
  address has six bytes.
\<close>

definition ETHARP_HWADDR_LEN :: nat where
  "ETHARP_HWADDR_LEN = 6"

text \<open>
  The loop of \<^verbatim>\<open>uhyve_netif_init\<close> over the address string:
  \<^verbatim>\<open>
  char *hermit_mac = hermit_net_mac_str();
  for (tmp8=0; tmp8 < ETHARP_HWADDR_LEN; tmp8++) {
        netif->hwaddr[tmp8] = dehex(*hermit_mac++) << 4;
        netif->hwaddr[tmp8] |= dehex(*hermit_mac++);
        hermit_mac++;
  }
  \<close>
  The first argument counts the passes still to run, the second is the string from the
  pointer \<^verbatim>\<open>hermit_mac\<close> on; the result lists \<^verbatim>\<open>hwaddr[0]\<close>, \<^verbatim>\<open>hwaddr[1]\<close>, ...
  as the loop stores them. Each pass reads two characters and steps over a third
  without reading it. A read behind the end of the buffer gives \<open>None\<close>.
\<close>

fun hwaddr_loop :: "nat \<Rightarrow> string \<Rightarrow> u8 list option" where
  "hwaddr_loop 0 hermit_mac = Some []"
| "hwaddr_loop (Suc n) (c1 # c2 # rest) =
     (let b = push_bit 4 (dehex c1);
          b = b OR dehex c2
      in map_option ((#) b) (hwaddr_loop n (drop 1 rest)))"
| "hwaddr_loop (Suc n) _ = None"

definition uhyve_netif_init_hwaddr :: "string \<Rightarrow> u8 list option" where
  "uhyve_netif_init_hwaddr uhyve_netinfo =
     hwaddr_loop ETHARP_HWADDR_LEN (hermit_net_mac_str uhyve_netinfo)"

text \<open>
  What the specification means by the byte values of a string of the shape
  \<open>aa:bb:cc:dd:ee:ff\<close>: the value of a hexadecimal digit in either case, of a pair
  of digits, and of pairs separated by colons.
\<close>

definition hex_digit_value :: "char \<Rightarrow> nat option" where
  "hex_digit_value = map_of
     [(CHR ''0'', 0), (CHR ''1'', 1), (CHR ''2'', 2), (CHR ''3'', 3), (CHR ''4'', 4),
      (CHR ''5'', 5), (CHR ''6'', 6), (CHR ''7'', 7), (CHR ''8'', 8), (CHR ''9'', 9),
      (CHR ''a'', 10), (CHR ''b'', 11), (CHR ''c'', 12), (CHR ''d'', 13), (CHR ''e'', 14),
      (CHR ''f'', 15),
      (CHR ''A'', 10), (CHR ''B'', 11), (CHR ''C'', 12), (CHR ''D'', 13), (CHR ''E'', 14),
      (CHR ''F'', 15)]"

definition hex_pair_value :: "char \<Rightarrow> char \<Rightarrow> nat option" where
  "hex_pair_value c1 c2 =
     (case hex_digit_value c1 of
        None \<Rightarrow> None
      | Some h \<Rightarrow> (case hex_digit_value c2 of None \<Rightarrow> None | Some l \<Rightarrow> Some (16 * h + l)))"

fun mac_spec :: "string \<Rightarrow> nat list option" where
  "mac_spec [c1, c2] = map_option (\<lambda>b. [b]) (hex_pair_value c1 c2)"
| "mac_spec (c1 # c2 # sep # rest) =
     (if sep = CHR '':'' then
        (case hex_pair_value c1 c2 of
           None \<Rightarrow> None
         | Some b \<Rightarrow> map_option ((#) b) (mac_spec rest))
      else None)"
| "mac_spec _ = None"

subsection \<open>Packet buffers, driver state and the environment\<close>

text \<open>
  A \<^verbatim>\<open>struct pbuf\<close> with the fields the driver reads. \<open>payload\<close> is the memory the
  pointer \<^verbatim>\<open>payload\<close> refers to; \<^verbatim>\<open>len\<close> and \<^verbatim>\<open>tot_len\<close> are \<^verbatim>\<open>u16_t\<close>. A chain
  linked through \<^verbatim>\<open>next\<close> is the list of its buffers, and the null pointer is the
  empty list.
\<close>

record pbuf =
  payload :: "u8 list"
  len :: u16
  tot_len :: u16

text \<open>
  What the build configuration and the stack supply: the macros \<^verbatim>\<open>ETH_PAD_SIZE\<close>
  (lwipopts) and \<^verbatim>\<open>RX_BUF_LEN\<close> (uhyve-net.h), and the stack's \<^verbatim>\<open>pbuf_header\<close>,
  which moves the payload pointer of the one buffer it is given by a signed number of
  bytes. None of them is among the sources, so they are parameters. Where
  \<^verbatim>\<open>ETH_PAD_SIZE\<close> is 0 the calls of \<^verbatim>\<open>pbuf_header\<close> are compiled out.
\<close>

record lwipopts =
  ETH_PAD_SIZE :: nat
  RX_BUF_LEN :: nat
  pbuf_header :: "pbuf \<Rightarrow> int \<Rightarrow> pbuf"

text \<open>
  The state the driver works on: its own variables, and a log of every call it makes
  into the hypervisor, the stack and the interrupt controller.
  \<^item> \<open>uhyve_net_init_ok\<close>: the static flag;
  \<^item> \<open>rx_buf\<close>: the receive buffer of the one device;
  \<^item> \<open>link_xmit\<close>, \<open>link_recv\<close>, \<open>link_drop\<close>, \<open>link_memerr\<close>: how often
    \<^verbatim>\<open>LINK_STATS_INC\<close> ran on each counter;
  \<^item> \<open>net_writes\<close>: the arguments of each \<^verbatim>\<open>uhyve_net_write_sync\<close>, in order;
  \<^item> \<open>net_reads\<close>: the length passed to each \<^verbatim>\<open>uhyve_net_read_sync\<close>, in order;
  \<^item> \<open>callbacks\<close>: the chain passed to each \<^verbatim>\<open>tcpip_callback_with_block\<close>;
  \<^item> \<open>freed\<close>: the chain passed to each \<^verbatim>\<open>pbuf_free\<close>;
  \<^item> \<open>eoi_count\<close>: how often \<^verbatim>\<open>eoi()\<close> ran.
\<close>

record uhyve_state =
  uhyve_net_init_ok :: int
  rx_buf :: "u8 list"
  link_xmit :: nat
  link_recv :: nat
  link_drop :: nat
  link_memerr :: nat
  net_writes :: "(u8 list \<times> u16) list"
  net_reads :: "int list"
  callbacks :: "pbuf list list"
  freed :: "pbuf list list"
  eoi_count :: nat

text \<open>
  What the environment answers during one pass of the receive loop: the hypervisor's
  answer to the read (\<^verbatim>\<open>ret\<close>, the length it writes back, the bytes it stores at the
  start of the receive buffer), the chain \<^verbatim>\<open>pbuf_alloc\<close> returns (empty for the null
  pointer) and the result of \<^verbatim>\<open>tcpip_callback_with_block\<close>. The last two are read
  only when the pass reaches the call.
\<close>

record rx_event =
  rd_ret :: int
  rd_len :: int
  rd_data :: "u8 list"
  alloc :: "pbuf list"
  cb_err :: err_t

text \<open>
  How a run of the driver can fail to return a state: a \<^verbatim>\<open>memcpy\<close> or a pointer
  access that leaves its buffer (no defined behaviour in C), or a receive loop that is
  still running when the listed answers of the environment are used up.
\<close>

datatype fault = Out_Of_Bounds | Null_Pointer | Still_Polling

subsection \<open>The transmit path\<close>

definition uhyve_net_write_sync :: "u8 list \<Rightarrow> u16 \<Rightarrow> uhyve_state \<Rightarrow> uhyve_state" where
  "uhyve_net_write_sync data n st = st\<lparr>net_writes := net_writes st @ [(data, n)]\<rparr>"

text \<open>
  \<^verbatim>\<open>
  for (q = p, i = 0; q != 0; q = q->next) {
        uhyve_net_write_sync(q->payload, q->len);
        i += q->len;
  }
  \<close>
  (\<^verbatim>\<open>i\<close> is never read.)
\<close>

fun output_loop :: "pbuf list \<Rightarrow> uhyve_state \<Rightarrow> uhyve_state" where
  "output_loop [] st = st"
| "output_loop (q # qs) st = output_loop qs (uhyve_net_write_sync (payload q) (len q) st)"

text \<open>
  \<^verbatim>\<open>
  static err_t uhyve_netif_output(struct netif* netif, struct pbuf* p)
  {
        if(BUILTIN_EXPECT(p->tot_len > 1792, 0)) {
                kprintf("uhyve_netif_output: packet (%i bytes) is longer than 1792 bytes\n", p->tot_len);
                return ERR_IF;
        }
  #if ETH_PAD_SIZE
        pbuf_header(p, -ETH_PAD_SIZE); /*drop padding word */
  #endif
        for (...) { ... }
  #if ETH_PAD_SIZE
        pbuf_header(p, ETH_PAD_SIZE); /* reclaim the padding word */
  #endif
        LINK_STATS_INC(link.xmit);
        return ERR_OK;
  }
  \<close>
  The result is the returned \<^verbatim>\<open>err_t\<close>, the chain as the call leaves it and the new
  state. The console output of \<^verbatim>\<open>kprintf\<close> is not modelled.
\<close>

definition drop_padding :: "lwipopts \<Rightarrow> pbuf list \<Rightarrow> pbuf list" where
  "drop_padding opts p =
     (case p of
        [] \<Rightarrow> []
      | h # t \<Rightarrow> if ETH_PAD_SIZE opts = 0 then p
                 else pbuf_header opts h (- int (ETH_PAD_SIZE opts)) # t)"

definition reclaim_padding :: "lwipopts \<Rightarrow> pbuf list \<Rightarrow> pbuf list" where
  "reclaim_padding opts p =
     (case p of
        [] \<Rightarrow> []
      | h # t \<Rightarrow> if ETH_PAD_SIZE opts = 0 then p
                 else pbuf_header opts h (int (ETH_PAD_SIZE opts)) # t)"

definition uhyve_netif_output ::
  "lwipopts \<Rightarrow> pbuf list \<Rightarrow> uhyve_state \<Rightarrow> fault + (err_t \<times> pbuf list \<times> uhyve_state)" where
  "uhyve_netif_output opts p st =
     (case p of
        [] \<Rightarrow> Inl Null_Pointer
      | h # t \<Rightarrow>
          if 1792 < tot_len h then Inr (ERR_IF, p, st)
          else
            (let p1 = drop_padding opts p;
                 st1 = output_loop p1 st;
                 p2 = reclaim_padding opts p1
             in Inr (ERR_OK, p2, st1\<lparr>link_xmit := link_xmit st1 + 1\<rparr>)))"

subsection \<open>The receive path\<close>

text \<open>
  \<^verbatim>\<open>uhyve_net_read_sync(data, &n)\<close> passes the buffer and \<^verbatim>\<open>*n\<close> to the hypervisor,
  stores the length the hypervisor writes back in \<^verbatim>\<open>*n\<close> and returns the
  hypervisor's \<^verbatim>\<open>ret\<close>. The result is the returned value, the new \<^verbatim>\<open>*n\<close> and the
  new state.
\<close>

definition uhyve_net_read_sync ::
  "rx_event \<Rightarrow> int \<Rightarrow> uhyve_state \<Rightarrow> int \<times> int \<times> uhyve_state" where
  "uhyve_net_read_sync ev n st =
     (rd_ret ev, rd_len ev,
      st\<lparr>net_reads := net_reads st @ [n],
         rx_buf := rd_data ev @ drop (length (rd_data ev)) (rx_buf st)\<rparr>)"

text \<open>
  \<^verbatim>\<open>memcpy(dst, src, n)\<close> on the memory behind the two pointers: the first \<open>n\<close>
  bytes of \<open>dst\<close> are replaced. It is undefined when either buffer is shorter.
\<close>

definition memcpy :: "u8 list \<Rightarrow> u8 list \<Rightarrow> nat \<Rightarrow> u8 list option" where
  "memcpy dst src n =
     (if n \<le> length dst \<and> n \<le> length src then Some (take n src @ drop n dst) else None)"

text \<open>
  \<^verbatim>\<open>
  uint8_t pos = 0;
  for (q=p; q!=NULL; q=q->next) {
        memcpy((uint8_t*) q->payload, uhyve_netif->rx_buf + pos, q->len);
        pos += q->len;
  }
  \<close>
  \<^verbatim>\<open>pos\<close> is a \<^verbatim>\<open>uint8_t\<close>: the sum is truncated to eight bits when it is stored.
\<close>

fun copy_loop :: "u8 list \<Rightarrow> u8 \<Rightarrow> pbuf list \<Rightarrow> pbuf list option" where
  "copy_loop rx pos [] = Some []"
| "copy_loop rx pos (q # qs) =
     (case memcpy (payload q) (drop (unat pos) rx) (unat (len q)) of
        None \<Rightarrow> None
      | Some bytes \<Rightarrow>
          (case copy_loop rx (pos + ucast (len q)) qs of
             None \<Rightarrow> None
           | Some qs' \<Rightarrow> Some (q\<lparr>payload := bytes\<rparr> # qs')))"

text \<open>
  The body of the \<^verbatim>\<open>while\<close> loop of \<^verbatim>\<open>uhyve_netif_poll\<close>, entered after a read that
  returned 0 and left \<^verbatim>\<open>len\<close> in \<open>len1\<close>:
  \<^verbatim>\<open>
  #if ETH_PAD_SIZE
        len += ETH_PAD_SIZE;
  #endif
        p = pbuf_alloc(PBUF_RAW, len, PBUF_POOL);
        if(p) {
  #if ETH_PAD_SIZE
                pbuf_header(p, -ETH_PAD_SIZE);
  #endif
                uint8_t pos = 0;
                for (...) { ... }
  #if ETH_PAD_SIZE
                pbuf_header(p, ETH_PAD_SIZE);
  #endif
                if (tcpip_callback_with_block(consume_packet, p, 0) == ERR_OK) {
                        LINK_STATS_INC(link.recv);
                } else {
                        LINK_STATS_INC(link.drop);
                        pbuf_free(p);
                }
        } else {
                kprintf("uhyve_netif_poll: not enough memory!\n");
                LINK_STATS_INC(link.memerr);
                LINK_STATS_INC(link.drop);
        }
  \<close>
  The result is the new value of \<^verbatim>\<open>len\<close> and the new state.
\<close>

definition poll_body ::
  "lwipopts \<Rightarrow> rx_event \<Rightarrow> int \<Rightarrow> uhyve_state \<Rightarrow> fault + (int \<times> uhyve_state)" where
  "poll_body opts ev len1 st =
     (let len2 = len1 + int (ETH_PAD_SIZE opts);
          p = alloc ev
      in if p \<noteq> [] then
           (case copy_loop (rx_buf st) 0 (drop_padding opts p) of
              None \<Rightarrow> Inl Out_Of_Bounds
            | Some p1 \<Rightarrow>
                (let p2 = reclaim_padding opts p1;
                     st1 = st\<lparr>callbacks := callbacks st @ [p2]\<rparr>
                 in if cb_err ev = ERR_OK
                    then Inr (len2, st1\<lparr>link_recv := link_recv st1 + 1\<rparr>)
                    else Inr (len2, st1\<lparr>link_drop := link_drop st1 + 1,
                                         freed := freed st1 @ [p2]\<rparr>)))
         else Inr (len2, st\<lparr>link_memerr := link_memerr st + 1,
                              link_drop := link_drop st + 1\<rparr>))"

text \<open>
  \<^verbatim>\<open>while (uhyve_net_read_sync(uhyve_netif->rx_buf, &len) == 0) { ... }\<close>
  Each pass takes the environment's next answer. The loop has no bound of its own:
  it runs for as long as the hypervisor has frames. When the listed answers end before
  a read returns a value other than 0, the loop has not returned: \<open>Still_Polling\<close>.
\<close>

fun poll_loop ::
  "lwipopts \<Rightarrow> rx_event list \<Rightarrow> int \<Rightarrow> uhyve_state \<Rightarrow> fault + uhyve_state" where
  "poll_loop opts [] n st = Inl Still_Polling"
| "poll_loop opts (ev # evs) n st =
     (case uhyve_net_read_sync ev n st of
        (ret, len1, st1) \<Rightarrow>
          if ret = 0 then
            (case poll_body opts ev len1 st1 of
               Inl f \<Rightarrow> Inl f
             | Inr (len2, st2) \<Rightarrow> poll_loop opts evs len2 st2)
          else Inr st1)"

definition eoi :: "uhyve_state \<Rightarrow> uhyve_state" where
  "eoi st = st\<lparr>eoi_count := eoi_count st + 1\<rparr>"

text \<open>
  \<^verbatim>\<open>
  void uhyve_netif_poll(void)
  {
        if (!uhyve_net_init_ok)
                return;
        uhyve_netif_t* uhyve_netif = mynetif->state;
        int len = RX_BUF_LEN;
        ...
        while (...) { ... }
        eoi();
  }
  \<close>
\<close>

definition uhyve_netif_poll ::
  "lwipopts \<Rightarrow> rx_event list \<Rightarrow> uhyve_state \<Rightarrow> fault + uhyve_state" where
  "uhyve_netif_poll opts evs st =
     (if uhyve_net_init_ok st = 0 then Inr st
      else
        (case poll_loop opts evs (int (RX_BUF_LEN opts)) st of
           Inl f \<Rightarrow> Inl f
         | Inr st1 \<Rightarrow> Inr (eoi st1)))"


subsection \<open>Well-formed answers and example inputs\<close>

text \<open>
  An allocated chain fits a receive buffer of \<open>m\<close> bytes when every buffer of the
  chain, as the copy loop sees it, has room for its \<^verbatim>\<open>len\<close> bytes and the lengths
  add up to at most \<open>m\<close>. This is what \<^verbatim>\<open>pbuf_alloc\<close> returns for a frame that fits
  the receive buffer.
\<close>

definition alloc_fits :: "lwipopts \<Rightarrow> nat \<Rightarrow> rx_event \<Rightarrow> bool" where
  "alloc_fits opts m ev \<longleftrightarrow>
     (let p = drop_padding opts (alloc ev)
      in list_all (\<lambda>q. unat (len q) \<le> length (payload q)) p
         \<and> sum_list (map (\<lambda>q. unat (len q)) p) \<le> m)"

text \<open>
  A pass hands its frame to the worker thread when the allocation succeeded; the
  worker thread's queue accepts it when the callback returns \<^verbatim>\<open>ERR_OK\<close>.
\<close>

definition handed :: "rx_event \<Rightarrow> bool" where
  "handed ev \<longleftrightarrow> alloc ev \<noteq> []"

definition accepted :: "rx_event \<Rightarrow> bool" where
  "accepted ev \<longleftrightarrow> alloc ev \<noteq> [] \<and> cb_err ev = ERR_OK"

text \<open>
  A configuration without padding and with \<^verbatim>\<open>RX_BUF_LEN\<close> 2048, the state before
  and after \<^verbatim>\<open>uhyve_netif_init\<close> has set \<^verbatim>\<open>uhyve_net_init_ok\<close> (the receive
  buffer holds \<^verbatim>\<open>RX_BUF_LEN + 16\<close> bytes, the size of the allocation that
  \<^verbatim>\<open>uhyve_netif_init\<close> has disabled), and some answers of the environment.
\<close>

definition hermit_opts :: lwipopts where
  "hermit_opts = \<lparr>ETH_PAD_SIZE = 0, RX_BUF_LEN = 2048, pbuf_header = (\<lambda>p n. p)\<rparr>"

definition boot_state :: uhyve_state where
  "boot_state = \<lparr>uhyve_net_init_ok = 0, rx_buf = replicate 2064 0,
     link_xmit = 0, link_recv = 0, link_drop = 0, link_memerr = 0,
     net_writes = [], net_reads = [], callbacks = [], freed = [], eoi_count = 0\<rparr>"

definition ready_state :: uhyve_state where
  "ready_state = boot_state\<lparr>uhyve_net_init_ok := 1\<rparr>"

definition no_data :: rx_event where
  "no_data = \<lparr>rd_ret = - 1, rd_len = 0, rd_data = [], alloc = [], cb_err = ERR_OK\<rparr>"

definition small_frame :: "pbuf list \<Rightarrow> err_t \<Rightarrow> rx_event" where
  "small_frame p e = \<lparr>rd_ret = 0, rd_len = 3, rd_data = [1, 2, 3], alloc = p, cb_err = e\<rparr>"

definition small_pbuf :: pbuf where
  "small_pbuf = \<lparr>payload = [0, 0, 0], len = 3, tot_len = 3\<rparr>"

text \<open>
  A frame of 257 bytes, 256 times \<open>0xAA\<close> and then \<open>0xBB\<close>, for which the pool
  returns a chain of a buffer of 256 bytes and a buffer of 1 byte.
\<close>

definition frame257 :: rx_event where
  "frame257 = \<lparr>rd_ret = 0, rd_len = 257, rd_data = replicate 256 0xAA @ [0xBB],
      alloc = [\<lparr>payload = replicate 256 0, len = 256, tot_len = 257\<rparr>,
               \<lparr>payload = [0], len = 1, tot_len = 1\<rparr>],
      cb_err = ERR_OK\<rparr>"


section \<open>The operating-system layer of sys\_arch.c\<close>

subsection \<open>Mailboxes\<close>

text \<open>\<^verbatim>\<open>#define TRUE 1\<close> and \<^verbatim>\<open>#define FALSE 0\<close>.\<close>

definition TRUE :: int where
  "TRUE = 1"

definition FALSE :: int where
  "FALSE = 0"

text \<open>
  \<^verbatim>\<open>sys_mbox_t\<close> holds the kernel's mailbox and the validity flag. The kernel's
  mailbox type is a parameter \<open>'m\<close>; a pointer to a \<^verbatim>\<open>sys_mbox_t\<close> that may be null
  is an \<open>option\<close>.
\<close>

record 'm sys_mbox_t =
  mailbox :: 'm
  valid :: int

text \<open>
  \<^verbatim>\<open>
  int sys_mbox_valid(sys_mbox_t * mbox)
  {
        if (BUILTIN_EXPECT(mbox == NULL, 0))
                return FALSE;
        return mbox->valid;
  }
  \<close>
\<close>

definition sys_mbox_valid :: "'m sys_mbox_t option \<Rightarrow> int" where
  "sys_mbox_valid mbox = (case mbox of None \<Rightarrow> FALSE | Some m \<Rightarrow> valid m)"

text \<open>
  \<^verbatim>\<open>
  /* sys_mbox_new(): create a new mailbox with a minimum size of "size" */
  err_t sys_mbox_new(sys_mbox_t* mb, int size)
  {
        int err;
        if (BUILTIN_EXPECT(!mb, 0))
                return ERR_VAL;
        mb->valid = TRUE;
        SYS_STATS_INC_USED(mbox);
        err = mailbox_ptr_init(&mb->mailbox);
        if (err)
                return ERR_MEM;
        return ERR_OK;
  }
  \<close>
  The kernel's \<^verbatim>\<open>mailbox_ptr_init\<close> is the parameter \<open>mbox_init\<close>: it returns its
  \<^verbatim>\<open>int\<close> and the mailbox as it leaves it. \<open>used\<close> counts the runs of
  \<^verbatim>\<open>SYS_STATS_INC_USED(mbox)\<close>. The result is the returned \<^verbatim>\<open>err_t\<close>, the
  \<^verbatim>\<open>sys_mbox_t\<close> as the call leaves it, and the new count.
\<close>

definition sys_mbox_new ::
  "('m \<Rightarrow> int \<times> 'm) \<Rightarrow> 'm sys_mbox_t option \<Rightarrow> int \<Rightarrow> nat
     \<Rightarrow> err_t \<times> 'm sys_mbox_t option \<times> nat" where
  "sys_mbox_new mbox_init mb size' used =
     (case mb of
        None \<Rightarrow> (ERR_VAL, None, used)
      | Some m \<Rightarrow>
          (let m1 = m\<lparr>valid := TRUE\<rparr>;
               used1 = used + 1;
               (err, box) = mbox_init (mailbox m1);
               m2 = m1\<lparr>mailbox := box\<rparr>
           in if err \<noteq> 0 then (ERR_MEM, Some m2, used1) else (ERR_OK, Some m2, used1)))"

text \<open>
  \<^verbatim>\<open>
  err_t sys_mbox_trypost(sys_mbox_t *mbox, void *msg)
  {
        int err;
        err = mailbox_ptr_trypost(&mbox->mailbox, msg);
        if (err != 0) {
                LWIP_DEBUGF(SYS_DEBUG, ("sys_mbox_trypost: %d\n", err));
                return ERR_MEM;
        }
        return ERR_OK;
  }
  \<close>
  The kernel's \<^verbatim>\<open>mailbox_ptr_trypost\<close> is the parameter \<open>mbox_trypost\<close>.
\<close>

definition sys_mbox_trypost ::
  "('m \<Rightarrow> 'p \<Rightarrow> int \<times> 'm) \<Rightarrow> 'm sys_mbox_t \<Rightarrow> 'p \<Rightarrow> err_t \<times> 'm sys_mbox_t" where
  "sys_mbox_trypost mbox_trypost mbox msg =
     (let (err, box) = mbox_trypost (mailbox mbox) msg
      in if err \<noteq> 0 then (ERR_MEM, mbox\<lparr>mailbox := box\<rparr>)
         else (ERR_OK, mbox\<lparr>mailbox := box\<rparr>))"

text \<open>A run of \<^verbatim>\<open>sys_mbox_trypost\<close> calls with no fetch in between, and their results.\<close>

fun trypost_all ::
  "('m \<Rightarrow> 'p \<Rightarrow> int \<times> 'm) \<Rightarrow> 'm sys_mbox_t \<Rightarrow> 'p list \<Rightarrow> err_t list \<times> 'm sys_mbox_t" where
  "trypost_all mbox_trypost mbox [] = ([], mbox)"
| "trypost_all mbox_trypost mbox (msg # msgs) =
     (case sys_mbox_trypost mbox_trypost mbox msg of
        (e, mbox1) \<Rightarrow>
          (case trypost_all mbox_trypost mbox1 msgs of
             (es, mbox2) \<Rightarrow> (e # es, mbox2)))"

text \<open>
  Modelled from the spec: the kernel's mailbox (\<^verbatim>\<open>mailbox_ptr_t\<close> with
  \<^verbatim>\<open>mailbox_ptr_init\<close> and \<^verbatim>\<open>mailbox_ptr_trypost\<close>) is not among the sources. The
  specification describes it as a bounded queue of pointers whose capacity is fixed at
  creation and which rejects a non-blocking post when it is full;
  \<^verbatim>\<open>mailbox_ptr_init\<close> takes the mailbox alone, so the capacity is a constant of the
  kernel (\<^verbatim>\<open>MAILBOX_SIZE\<close>), here the first argument.
\<close>

record 'p mailbox_ptr_t =
  buffer :: "'p list"
  capacity :: nat

definition mailbox_ptr_init :: "nat \<Rightarrow> 'p mailbox_ptr_t \<Rightarrow> int \<times> 'p mailbox_ptr_t" where
  "mailbox_ptr_init MAILBOX_SIZE m = (0, \<lparr>buffer = [], capacity = MAILBOX_SIZE\<rparr>)"

definition mailbox_ptr_trypost :: "'p mailbox_ptr_t \<Rightarrow> 'p \<Rightarrow> int \<times> 'p mailbox_ptr_t" where
  "mailbox_ptr_trypost m msg =
     (if length (buffer m) < capacity m then (0, m\<lparr>buffer := buffer m @ [msg]\<rparr>)
      else (- 1, m))"

subsection \<open>The socket shim\<close>

text \<open>
  \<^verbatim>\<open>
  int poll(struct pollfd *fds, nfds_t nfds, int timeout)
  {
        int ret = lwip_poll(fds, nfds, timeout);
        if (ret)
        {
                *libc_errno() = errno;
                return -1;
        }
        return 0;
  }
  \<close>
  The stack's \<^verbatim>\<open>lwip_poll\<close> is a parameter: it returns its result and the value it
  leaves in the stack's \<^verbatim>\<open>errno\<close>. \<open>getreent\<close> is the process-visible error
  location behind \<^verbatim>\<open>libc_errno()\<close>. The result is the returned \<^verbatim>\<open>int\<close> and the new
  content of that location.
\<close>

definition poll ::
  "('f \<Rightarrow> 'n \<Rightarrow> int \<Rightarrow> int \<times> int) \<Rightarrow> 'f \<Rightarrow> 'n \<Rightarrow> int \<Rightarrow> int \<Rightarrow> int \<times> int" where
  "poll lwip_poll fds nfds timeout getreent =
     (let (ret, errno) = lwip_poll fds nfds timeout
      in if ret \<noteq> 0 then (- 1, errno) else (0, getreent))"

text \<open>
  The sibling \<^verbatim>\<open>select\<close>, for comparison (\<^verbatim>\<open>sys_yield\<close> changes neither value):
  \<^verbatim>\<open>
        ret = lwip_select(maxfdp1, readset, writeset, exceptset, timeout);
        if (ret < 0)
        {
                *libc_errno() = errno;
                return -1;
        }
        sys_yield();
        return ret;
  \<close>
\<close>

definition select :: "('a \<Rightarrow> int \<times> int) \<Rightarrow> 'a \<Rightarrow> int \<Rightarrow> int \<times> int" where
  "select lwip_select args getreent =
     (let (ret, errno) = lwip_select args
      in if ret < 0 then (- 1, errno) else (ret, getreent))"


section \<open>Properties of the pseudo-random generator\<close>

lemma pow31_le: "32 \<le> w \<Longrightarrow> (2147483648::int) \<le> 2 ^ (w - 1)"
proof -
  assume "32 \<le> w"
  then have "(2::int) ^ 31 \<le> 2 ^ (w - 1)"
    by (intro power_increasing) auto
  then show ?thesis by simp
qed

lemma to_long_small:
  "32 \<le> w \<Longrightarrow> - 2147483648 \<le> x \<Longrightarrow> x < 2147483648 \<Longrightarrow> to_long w x = Some x"
  using pow31_le [of w] by (simp add: to_long_def long_range_def)

lemma seed_to_long:
  assumes "32 \<le> w" "0 \<le> s" "s < 2147483648"
  shows "signed_take_bit (w - 1) s = (s::int)"
proof -
  have "- (2 ^ (w - 1)) \<le> s" "s < 2 ^ (w - 1)"
    using pow31_le [OF assms(1)] assms(2,3) by linarith+
  then show ?thesis
    by (simp add: signed_take_bit_int_eq_self)
qed

lemma sdiv_nonneg: "0 \<le> (s::int) \<Longrightarrow> s sdiv 127773 = s div 127773"
  by (cases "s = 0") (simp_all add: signed_divide_int_def sgn_if)

lemma and_rand_max: "0 \<le> x \<Longrightarrow> x < 2147483648 \<Longrightarrow> x AND 2147483647 = (x::int)"
proof -
  assume a: "0 \<le> x" "x < 2147483648"
  have "x AND mask 31 = take_bit 31 x"
    by (simp add: take_bit_eq_mask)
  also have "\<dots> = x"
    using a by (simp add: take_bit_int_eq_self)
  finally show ?thesis
    by (simp add: mask_eq_exp_minus_1)
qed

text \<open>
  On a value of \<^verbatim>\<open>s\<close> between 1 and \<open>2^31 - 1\<close> no step of \<^verbatim>\<open>__rand\<close> leaves
  the range of \<^verbatim>\<open>long\<close>, and the function stores and returns Schrage's expression.
\<close>

lemma rand_schrage:
  fixes s :: int
  assumes w: "32 \<le> w" and s: "1 \<le> s" "s \<le> 2147483647"
    and seed: "(if signed_take_bit (w - 1) (uint seed) = 0 then 305420679
                else signed_take_bit (w - 1) (uint seed)) = s"
  shows "rand w seed = Some (word_of_int (schrage s), schrage s)"
proof -
  define k where "k = s div 127773"
  define d where "d = s mod 127773"
  have sk: "s = 127773 * k + d" and d: "0 \<le> d" "d < 127773"
    by (simp_all add: k_def d_def)
  have k: "0 \<le> k" "k \<le> 16807"
    using s sk d by linarith+
  have 1: "s sdiv 127773 = k"
    using s by (simp add: sdiv_nonneg k_def)
  have 2: "to_long w k = Some k"
    using w k by (intro to_long_small) linarith+
  have 3: "to_long w (k * 127773) = Some (k * 127773)"
    using w k by (intro to_long_small) linarith+
  have 4: "to_long w (s - k * 127773) = Some d"
    using w d sk to_long_small [of w d] by simp
  have 5: "to_long w (16807 * d) = Some (16807 * d)"
    using w d by (intro to_long_small) linarith+
  have 6: "to_long w (2836 * k) = Some (2836 * k)"
    using w k by (intro to_long_small) linarith+
  have 7: "to_long w (16807 * d - 2836 * k) = Some (16807 * d - 2836 * k)"
    using w k d by (intro to_long_small) linarith+
  have 8: "to_long w (16807 * d - 2836 * k + 2147483647) = Some (16807 * d - 2836 * k + 2147483647)"
    if "16807 * d - 2836 * k < 0"
    using w k d that by (intro to_long_small) linarith+
  have r: "0 \<le> schrage s" "schrage s < 2147483648"
    using k d by (simp_all add: schrage_def Let_def k_def [symmetric] d_def [symmetric])
  have "rand w seed = Some (word_of_int (schrage s), schrage s AND 2147483647)"
    unfolding rand_def seed Let_def
    using s 8 by (simp add: 1 2 3 4 5 6 7 schrage_def Let_def
        k_def [symmetric] d_def [symmetric])
  then show ?thesis
    using r by (simp add: and_rand_max)
qed

text \<open>Schrage's expression is the linear-congruential step, for seeds strictly below the modulus.\<close>

lemma schrage_lcg:
  fixes s :: int
  assumes s: "1 \<le> s" "s \<le> 2147483646"
  shows "schrage s = lcg_spec s"
proof -
  define k where "k = s div 127773"
  define d where "d = s mod 127773"
  define t where "t = 16807 * d - 2836 * k"
  have sk: "s = 127773 * k + d" and d: "0 \<le> d" "d < 127773"
    by (simp_all add: k_def d_def)
  have k: "0 \<le> k" "k \<le> 16807"
    using s sk d by linarith+
  have t: "- 2147483647 < t" "t < 2147483647"
    using k d by (simp_all add: t_def)
  have eq: "16807 * s = 2147483647 * k + t"
    by (simp add: sk t_def)
  show ?thesis
  proof (cases "t < 0")
    case True
    have "16807 * s = 2147483647 * (k - 1) + (t + 2147483647)"
      using eq by simp
    then have "(16807 * s) mod 2147483647 = t + 2147483647"
      using t True by (intro int_mod_pos_eq [where q = "k - 1"]) simp_all
    then show ?thesis
      using True by (simp add: schrage_def lcg_spec_def Let_def k_def [symmetric]
          d_def [symmetric] t_def [symmetric])
  next
    case False
    have "(16807 * s) mod 2147483647 = t"
      using t False eq by (intro int_mod_pos_eq [where q = k]) simp_all
    then show ?thesis
      using False by (simp add: schrage_def lcg_spec_def Let_def k_def [symmetric]
          d_def [symmetric] t_def [symmetric])
  qed
qed

text \<open>
  The step maps \<open>1 .. 2^31 - 2\<close> into itself. The only way to reach 0 is
  \<open>16807 * d = 2836 * k\<close>; the two factors are coprime
  (\<open>2836 * 5790 - 16807 * 977 = 1\<close>), so \<open>k\<close> is a multiple of 16807, which
  leaves the seeds 0 and \<open>2^31 - 1\<close> only.
\<close>

lemma schrage_range:
  fixes s :: int
  assumes s: "1 \<le> s" "s \<le> 2147483646"
  shows "1 \<le> schrage s \<and> schrage s \<le> 2147483646"
proof -
  define k where "k = s div 127773"
  define d where "d = s mod 127773"
  define t where "t = 16807 * d - 2836 * k"
  have sk: "s = 127773 * k + d" and d: "0 \<le> d" "d < 127773"
    by (simp_all add: k_def d_def)
  have k: "0 \<le> k" "k \<le> 16807"
    using s sk d by linarith+
  have t: "- 2147483647 < t" "t < 2147483647"
    using k d by (simp_all add: t_def)
  have "t \<noteq> 0"
  proof
    assume "t = 0"
    then have e: "16807 * d = 2836 * k"
      by (simp add: t_def)
    have "k = 16807 * (5790 * d - 977 * k) - 5790 * (16807 * d) + 5790 * (2836 * k)"
      by simp
    then have "k = 16807 * (5790 * d - 977 * k)"
      using e by simp
    then obtain j where j: "k = 16807 * j"
      by blast
    with k have "0 \<le> j" "j \<le> 1"
      by linarith+
    then have "j = 0 \<or> j = 1"
      by linarith
    with j have "k = 0 \<or> k = 16807"
      by auto
    with e have "s = 0 \<or> s = 2147483647"
      using sk by auto
    with s show False by simp
  qed
  then show ?thesis
    using t by (simp add: schrage_def Let_def k_def [symmetric]
          d_def [symmetric] t_def [symmetric])
qed

lemma uint_word_of_int_31:
  "0 \<le> x \<Longrightarrow> x < 2147483648 \<Longrightarrow> uint (word_of_int x :: 32 word) = x"
  by (simp add: uint_word_of_int take_bit_int_eq_self)

text \<open>
  Claim C6. For every seed \<open>s\<close> with \<open>1 \<le> s \<le> 2147483646\<close>, one step of
  \<^verbatim>\<open>__rand\<close> (Schrage's factorisation, \<open>q = 127773\<close>, \<open>r = 2836\<close>) runs without any
  intermediate value leaving the range of \<^verbatim>\<open>long\<close> (the result is \<open>Some\<close>, for
  every width of \<^verbatim>\<open>long\<close> from 32 bits on) and stores exactly
  \<open>(16807 * s) mod 2147483647\<close> as the new seed, which is also the value returned.
\<close>

theorem rand_refines_lcg:
  assumes "32 \<le> w" and "1 \<le> uint seed" and "uint seed \<le> 2147483646"
  shows "\<exists>seed'. rand w seed = Some (seed', lcg_spec (uint seed))
           \<and> uint seed' = lcg_spec (uint seed)"
proof -
  let ?s = "uint seed"
  have st: "signed_take_bit (w - 1) ?s = ?s"
    using assms by (intro seed_to_long) simp_all
  have r: "rand w seed = Some (word_of_int (schrage ?s), schrage ?s)"
    using assms by (intro rand_schrage) (simp_all add: st del: One_nat_def)
  have e: "schrage ?s = lcg_spec ?s"
    using assms by (intro schrage_lcg) simp_all
  have b: "1 \<le> schrage ?s \<and> schrage ?s \<le> 2147483646"
    using assms by (intro schrage_range) simp_all
  have "uint (word_of_int (schrage ?s) :: 32 word) = schrage ?s"
    using b by (intro uint_word_of_int_31) simp_all
  with r e show ?thesis by simp
qed

theorem rand_refines_lcg_witness:
  "\<exists>seed'. rand 64 2147483646 = Some (seed', lcg_spec 2147483646)
      \<and> uint seed' = lcg_spec 2147483646"
  using rand_refines_lcg [of 64 2147483646] by simp

text \<open>
  The seed 0 is replaced by \<open>0x12345987 = 305420679\<close>, which lies in the range
  of the recurrence, so the call behaves as on that seed.
\<close>

lemma rand_zero_seed:
  assumes "32 \<le> w"
  shows "rand w 0 = Some (word_of_int (schrage 305420679), schrage 305420679)"
proof -
  show ?thesis
    using assms by (intro rand_schrage) simp_all
qed

text \<open>The value \<^verbatim>\<open>__rand_init\<close> stores lies below 127.\<close>

lemma rand_init_range: "uint (rand_init tsc) \<le> 126"
proof -
  have "uint (tsc mod 127) = uint tsc mod 127"
    by (simp add: uint_mod_distrib)
  then have m: "0 \<le> uint (tsc mod 127)" "uint (tsc mod 127) < 127"
    by simp_all
  have "uint (rand_init tsc) = take_bit 32 (uint (tsc mod 127))"
    by (simp add: rand_init_def unsigned_ucast_eq)
  also have "\<dots> = uint (tsc mod 127)"
    using m by (intro take_bit_int_eq_self) simp_all
  finally show ?thesis
    using m by simp
qed

text \<open>
  On a stored seed between 0 and \<open>2^31 - 2\<close> the software path of \<^verbatim>\<open>lwip_rand\<close>
  returns; it applies the recurrence to the seed, or to \<open>0x12345987\<close> when the seed
  is 0, and what it stores and returns lies in \<open>1 .. 2^31 - 2\<close> again.
\<close>

lemma lwip_rand_software:
  assumes "32 \<le> w" and "uint rand_seed \<le> 2147483646"
  shows "\<exists>r seed'. lwip_rand w None rand_seed = Some (r, seed')
           \<and> r = lcg_spec (if rand_seed = 0 then 0x12345987 else uint rand_seed)
           \<and> uint seed' = r \<and> 1 \<le> r \<and> r \<le> 2147483646"
proof -
  define s :: int where "s = (if rand_seed = 0 then 305420679 else uint rand_seed)"
  have s: "1 \<le> s" "s \<le> 2147483646"
  proof -
    have "rand_seed \<noteq> 0 \<Longrightarrow> 1 \<le> uint rand_seed"
      using uint_0_iff [of rand_seed] uint_nonnegative [of rand_seed] by linarith
    then show "1 \<le> s" by (simp add: s_def)
    show "s \<le> 2147483646" using assms(2) by (simp add: s_def)
  qed
  have r: "rand w rand_seed = Some (word_of_int (schrage s), schrage s)"
  proof (cases "rand_seed = 0")
    case True
    then show ?thesis
      using rand_zero_seed [OF assms(1)] by (simp add: s_def)
  next
    case False
    have st: "signed_take_bit (w - 1) (uint rand_seed) = uint rand_seed"
      using assms by (intro seed_to_long) simp_all
    have "rand w rand_seed = Some (word_of_int (schrage (uint rand_seed)), schrage (uint rand_seed))"
      using s False assms(1) by (intro rand_schrage) (simp_all add: s_def st del: One_nat_def)
    then show ?thesis
      using False by (simp add: s_def)
  qed
  have b: "1 \<le> schrage s \<and> schrage s \<le> 2147483646"
    using s by (rule schrage_range)
  then have u: "uint (word_of_int (schrage s) :: 32 word) = schrage s"
    by (intro uint_word_of_int_31) simp_all
  have e: "schrage s = lcg_spec s"
    using s by (rule schrage_lcg)
  from r b u e show ?thesis
    by (simp add: lwip_rand_def s_def)
qed

text \<open>
  The range \<open>0 .. 2^31 - 2\<close> is kept by every call of \<^verbatim>\<open>lwip_rand\<close>: the hardware
  path leaves \<^verbatim>\<open>rand_seed\<close> alone, and the software path stores a value of
  \<open>1 .. 2^31 - 2\<close>. So every sequence of calls returns, and the seed stays in range.
\<close>

lemma seed_after_calls_range:
  assumes "32 \<le> w" and "uint rand_seed \<le> 2147483646"
  shows "\<exists>seed. seed_after_calls w calls rand_seed = Some seed \<and> uint seed \<le> 2147483646"
  using assms(2)
proof (induction calls arbitrary: rand_seed)
  case Nil
  then show ?case by simp
next
  case (Cons rdrand calls)
  show ?case
  proof (cases rdrand)
    case None
    from lwip_rand_software [OF assms(1) Cons.prems] obtain r seed' where
      l: "lwip_rand w None rand_seed = Some (r, seed')" and u: "uint seed' = r" "r \<le> 2147483646"
      by blast
    from Cons.IH [of seed'] u obtain seed where
      "seed_after_calls w calls seed' = Some seed" "uint seed \<le> 2147483646"
      by auto
    with l None show ?thesis by simp
  next
    case (Some v)
    from Cons.IH [OF Cons.prems] obtain seed where
      "seed_after_calls w calls rand_seed = Some seed" "uint seed \<le> 2147483646"
      by blast
    with Some show ?thesis by (simp add: lwip_rand_def)
  qed
qed

lemma stored_seed_range:
  assumes "32 \<le> w"
  shows "\<exists>seed. stored_seed w tsc calls = Some seed \<and> uint seed \<le> 2147483646"
proof -
  have "uint (rand_init tsc) \<le> 2147483646"
    using rand_init_range [of tsc] by linarith
  from seed_after_calls_range [OF assms this] show ?thesis
    by (simp add: stored_seed_def)
qed

text \<open>
  Claim C7. Whatever the cycle counter at initialisation was and whatever calls of
  \<^verbatim>\<open>lwip_rand\<close> came before, \<^verbatim>\<open>rand_seed\<close> holds a value, and the software path
  of \<^verbatim>\<open>lwip_rand\<close> on it returns: a stored seed of 0 is replaced by the constant
  \<open>0x12345987\<close> before the recurrence is applied, the recurrence is applied to every
  other stored seed as it is, the seed stored after the call is the value returned and
  is not 0, and the value returned lies in \<open>0 .. 2^31 - 1\<close>.
\<close>

theorem lwip_rand_zero_never_persists:
  assumes "32 \<le> w"
  shows "\<exists>seed r seed'. stored_seed w tsc calls = Some seed
           \<and> lwip_rand w None seed = Some (r, seed')
           \<and> r = lcg_spec (if seed = 0 then 0x12345987 else uint seed)
           \<and> uint seed' = r \<and> seed' \<noteq> 0 \<and> 0 \<le> r \<and> r \<le> 2147483647"
proof -
  from stored_seed_range [OF assms] obtain seed where
    s: "stored_seed w tsc calls = Some seed" "uint seed \<le> 2147483646"
    by blast
  from lwip_rand_software [OF assms s(2)] obtain r seed' where
    l: "lwip_rand w None seed = Some (r, seed')"
      "r = lcg_spec (if seed = 0 then 0x12345987 else uint seed)"
      "uint seed' = r" "1 \<le> r" "r \<le> 2147483646"
    by blast
  have "seed' \<noteq> 0"
    using l(3,4) by auto
  with s(1) l show ?thesis
    by auto
qed

text \<open>
  The theorem at a cycle counter of 0, which makes \<^verbatim>\<open>__rand_init\<close> store the seed 0,
  and at the state after a software, a hardware and another software call.
\<close>

theorem lwip_rand_zero_never_persists_witness:
  "(\<exists>seed r seed'. stored_seed 64 0 [] = Some seed
       \<and> lwip_rand 64 None seed = Some (r, seed')
       \<and> r = lcg_spec (if seed = 0 then 0x12345987 else uint seed)
       \<and> uint seed' = r \<and> seed' \<noteq> 0 \<and> 0 \<le> r \<and> r \<le> 2147483647)
   \<and> stored_seed 64 0 [] = Some 0
   \<and> (\<exists>seed r seed'. stored_seed 64 0 [None, Some 7, None] = Some seed
       \<and> lwip_rand 64 None seed = Some (r, seed')
       \<and> r = lcg_spec (if seed = 0 then 0x12345987 else uint seed)
       \<and> uint seed' = r \<and> seed' \<noteq> 0 \<and> 0 \<le> r \<and> r \<le> 2147483647)"
  using lwip_rand_zero_never_persists [of 64 0 "[]"]
    lwip_rand_zero_never_persists [of 64 0 "[None, Some 7, None]"]
  by (simp add: stored_seed_def rand_init_def)

text \<open>
  The bound on the stored seed is what the theorem rests on. The one value of
  \<open>0 .. 2^31 - 1\<close> that \<^verbatim>\<open>__rand\<close> maps to 0 is the modulus \<open>2^31 - 1\<close> itself
  (\<open>k = 16807\<close>, \<open>s - k * 127773 = 2836\<close>,
  \<open>16807 * 2836 - 2836 * 16807 = 0\<close>), and \<^verbatim>\<open>rand_seed\<close> never holds it.
\<close>

lemma lwip_rand_at_modulus:
  "lwip_rand 64 None 2147483647 = Some (0, 0)"
  by (simp add: lwip_rand_def rand_def to_long_def long_range_def signed_divide_int_def)

lemma stored_seed_below_modulus:
  "32 \<le> w \<Longrightarrow> stored_seed w tsc calls \<noteq> Some 2147483647"
  using stored_seed_range [of w tsc calls] by auto


section \<open>Properties of the driver\<close>

subsection \<open>Decoding the hardware address\<close>

text \<open>On a hexadecimal digit \<^verbatim>\<open>dehex\<close> returns the digit's value, in either case.\<close>
lemma dehex_digit: "hex_digit_value c = Some v \<Longrightarrow> dehex c = of_nat v \<and> v < 16"
  by (auto simp: hex_digit_value_def dehex_def split: if_splits)

text \<open>
  Shifting the first digit by four bits and or-ing the second in gives
  \<open>16 * h + l\<close>: the two values have no bit in common.
\<close>
lemma dehex_pair:
  assumes "hex_pair_value c1 c2 = Some b"
  shows "push_bit 4 (dehex c1) OR dehex c2 = of_nat b \<and> b < 256"
proof -
  from assms obtain h l where h: "hex_digit_value c1 = Some h" and l: "hex_digit_value c2 = Some l"
    and b: "b = 16 * h + l"
    by (auto simp: hex_pair_value_def split: option.splits)
  have hl: "h < 16" "l < 16" "dehex c1 = of_nat h" "dehex c2 = of_nat l"
    using dehex_digit [OF h] dehex_digit [OF l] by simp_all
  have "push_bit 4 (of_nat h :: u8) OR of_nat l = of_nat (push_bit 4 h OR l)"
    by (simp add: of_nat_or_eq of_nat_push_bit)
  also have "push_bit 4 h OR l = push_bit 4 h + l"
  proof -
    have "take_bit 4 l = l"
      using hl(2) by (simp add: take_bit_nat_eq_self)
    moreover have "push_bit 4 h AND take_bit 4 l = 0"
      by (auto simp add: bit_eq_iff bit_simps)
    ultimately have "push_bit 4 h AND l = 0"
      by simp
    then show ?thesis
      by (simp add: disjunctive_add_eq_or)
  qed
  finally have "push_bit 4 (dehex c1) OR dehex c2 = of_nat b"
    using hl b by (simp add: push_bit_eq_mult)
  moreover have "b < 256"
    using hl b by simp
  ultimately show ?thesis by simp
qed

lemma mac_spec_length: "mac_spec s = Some bs \<Longrightarrow> length s + 1 = 3 * length bs"
  by (induction s arbitrary: bs rule: mac_spec.induct) (auto split: if_splits option.splits)

lemma hwaddr_loop_spec:
  "mac_spec s = Some bs \<Longrightarrow>
     \<exists>hw. hwaddr_loop (length bs) (s @ rest) = Some hw \<and> map unat hw = bs"
proof (induction s arbitrary: bs rule: mac_spec.induct)
  case (1 c1 c2)
  then obtain b where b: "hex_pair_value c1 c2 = Some b" "bs = [b]"
    by auto
  from dehex_pair [OF b(1)] show ?case
    by (simp add: b(2) unat_of_nat)
next
  case (2 c1 c2 sep rest')
  then obtain b bs' where b: "hex_pair_value c1 c2 = Some b" "mac_spec rest' = Some bs'"
    "bs = b # bs'" "sep = CHR '':''"
    by (auto split: if_splits option.splits)
  from 2(1) [OF b(4) b(1) b(2)] obtain hw where
    hw: "hwaddr_loop (length bs') (rest' @ rest) = Some hw" "map unat hw = bs'"
    by blast
  from dehex_pair [OF b(1)] hw show ?case
    by (simp add: b(3) unat_of_nat)
qed simp_all

lemma mac_spec_example: "mac_spec ''aa:bb:cc:dd:ee:ff'' = Some [0xAA, 0xBB, 0xCC, 0xDD, 0xEE, 0xFF]"
  by (simp add: hex_pair_value_def hex_digit_value_def)

text \<open>
  Claim C8. For every string of the shape \<open>aa:bb:cc:dd:ee:ff\<close> (six pairs of
  hexadecimal digits in either case, a colon between two pairs), whatever follows it
  in the hypervisor's answer, the loop of \<^verbatim>\<open>uhyve_netif_init\<close> stores six
  hardware-address bytes, and they are the values of the six pairs. In particular
  \<open>aa:bb:cc:dd:ee:ff\<close> decodes to \<open>0xAA, 0xBB, 0xCC, 0xDD, 0xEE, 0xFF\<close>.
\<close>
theorem hwaddr_decodes_mac:
  assumes "mac_spec s = Some bs" and "length bs = 6"
  shows "\<exists>hw. uhyve_netif_init_hwaddr (s @ rest) = Some hw \<and> map unat hw = bs"
proof -
  have "length s = 17"
    using mac_spec_length [OF assms(1)] assms(2) by simp
  then have "hermit_net_mac_str (s @ rest) = s @ take 1 rest"
    by (simp add: hermit_net_mac_str_def)
  then show ?thesis
    using hwaddr_loop_spec [OF assms(1), of "take 1 rest"] assms(2)
    by (simp add: uhyve_netif_init_hwaddr_def ETHARP_HWADDR_LEN_def)
qed

theorem hwaddr_decodes_mac_witness:
  "mac_spec ''aa:bb:cc:dd:ee:ff'' = Some [0xAA, 0xBB, 0xCC, 0xDD, 0xEE, 0xFF]
   \<and> (\<exists>hw. uhyve_netif_init_hwaddr (''aa:bb:cc:dd:ee:ff'' @ [CHR 0x00]) = Some hw
          \<and> map unat hw = [0xAA, 0xBB, 0xCC, 0xDD, 0xEE, 0xFF])"
  using hwaddr_decodes_mac [OF mac_spec_example, of "[CHR 0x00]"] mac_spec_example
  by simp

subsection \<open>The transmit path\<close>

text \<open>The loop issues one write per buffer of the chain, in the order of the chain.\<close>
lemma output_loop_writes:
  "output_loop p st = st\<lparr>net_writes := net_writes st @ map (\<lambda>q. (payload q, len q)) p\<rparr>"
  by (induction p arbitrary: st) (simp_all add: uhyve_net_write_sync_def)

lemma length_drop_padding: "length (drop_padding opts p) = length p"
  by (simp add: drop_padding_def split: list.splits)

text \<open>
  Claim C3. A frame whose \<^verbatim>\<open>tot_len\<close> exceeds 1792 is rejected with \<^verbatim>\<open>ERR_IF\<close>
  and the state is unchanged, so no write is issued. A frame of at most 1792 bytes
  is written with one \<^verbatim>\<open>uhyve_net_write_sync\<close> per buffer of the chain, in chain
  order, each with the buffer's payload and length as the loop finds them, and the
  transmit counter is incremented. Without padding the chain the loop walks is the
  chain passed in.
\<close>
theorem uhyve_netif_output_limit:
  "(1792 < tot_len h \<longrightarrow> uhyve_netif_output opts (h # t) st = Inr (ERR_IF, h # t, st))
   \<and> (tot_len h \<le> 1792 \<longrightarrow>
        (\<exists>p' st'. uhyve_netif_output opts (h # t) st = Inr (ERR_OK, p', st')
           \<and> net_writes st' =
               net_writes st @ map (\<lambda>q. (payload q, len q)) (drop_padding opts (h # t))
           \<and> length (net_writes st') = length (net_writes st) + length (h # t)
           \<and> link_xmit st' = link_xmit st + 1))
   \<and> (ETH_PAD_SIZE opts = 0 \<longrightarrow> drop_padding opts (h # t) = h # t)"
  by (auto simp add: uhyve_netif_output_def output_loop_writes Let_def length_drop_padding
      drop_padding_def)

theorem uhyve_netif_output_limit_witness:
  "uhyve_netif_output hermit_opts
     [\<lparr>payload = replicate 1000 0, len = 1000, tot_len = 1793\<rparr>,
      \<lparr>payload = replicate 793 0, len = 793, tot_len = 793\<rparr>] boot_state
   = Inr (ERR_IF,
       [\<lparr>payload = replicate 1000 0, len = 1000, tot_len = 1793\<rparr>,
        \<lparr>payload = replicate 793 0, len = 793, tot_len = 793\<rparr>], boot_state)
   \<and> (\<exists>p' st'. uhyve_netif_output hermit_opts
          [\<lparr>payload = replicate 1000 0, len = 1000, tot_len = 1792\<rparr>,
           \<lparr>payload = replicate 792 0, len = 792, tot_len = 792\<rparr>] boot_state
        = Inr (ERR_OK, p', st')
        \<and> net_writes st' = [(replicate 1000 0, 1000), (replicate 792 0, 792)]
        \<and> link_xmit st' = 1)"
  using uhyve_netif_output_limit [of "\<lparr>payload = replicate 1000 0, len = 1000, tot_len = 1793\<rparr>"
      hermit_opts "[\<lparr>payload = replicate 793 0, len = 793, tot_len = 793\<rparr>]" boot_state]
    uhyve_netif_output_limit [of "\<lparr>payload = replicate 1000 0, len = 1000, tot_len = 1792\<rparr>"
      hermit_opts "[\<lparr>payload = replicate 792 0, len = 792, tot_len = 792\<rparr>]" boot_state]
  by (auto simp add: hermit_opts_def boot_state_def)

subsection \<open>The receive path\<close>

text \<open>
  The offset \<^verbatim>\<open>pos\<close> never exceeds the sum of the lengths copied so far, so a
  chain that fits the receive buffer is copied without leaving a buffer.
\<close>
lemma unat_pos_step: "unat ((pos :: u8) + ucast (l :: u16)) \<le> unat pos + unat l"
proof -
  have "unat (pos + ucast l) \<le> unat pos + unat (ucast l :: u8)"
    by (simp add: unat_word_ariths)
  also have "unat (ucast l :: u8) \<le> unat l"
    by (simp add: unsigned_ucast_eq take_bit_eq_mod)
  finally show ?thesis by simp
qed

lemma copy_loop_fits:
  "list_all (\<lambda>q. unat (len q) \<le> length (payload q)) p \<Longrightarrow>
   unat pos + sum_list (map (\<lambda>q. unat (len q)) p) \<le> length rx \<Longrightarrow>
   \<exists>p'. copy_loop rx pos p = Some p'"
proof (induction p arbitrary: pos)
  case Nil
  then show ?case by simp
next
  case (Cons q qs)
  have "unat (pos + ucast (len q)) + sum_list (map (\<lambda>q. unat (len q)) qs) \<le> length rx"
    using Cons.prems(2) unat_pos_step [of pos "len q"] by simp
  with Cons.IH [of "pos + ucast (len q)"] Cons.prems(1)
  obtain qs' where "copy_loop rx (pos + ucast (len q)) qs = Some qs'"
    by auto
  moreover have "\<exists>b. memcpy (payload q) (drop (unat pos) rx) (unat (len q)) = Some b"
    using Cons.prems by (simp add: memcpy_def)
  ultimately show ?case by auto
qed

text \<open>One pass of the loop body: what it adds to each counter and log.\<close>
lemma poll_body_fits:
  assumes "alloc_fits opts m ev" and "m \<le> length (rx_buf st)"
  shows "\<exists>st'. poll_body opts ev l st = Inr (l + int (ETH_PAD_SIZE opts), st')
     \<and> rx_buf st' = rx_buf st
     \<and> eoi_count st' = eoi_count st
     \<and> net_reads st' = net_reads st
     \<and> length (callbacks st') = length (callbacks st) + (if handed ev then 1 else 0)
     \<and> link_memerr st' = link_memerr st + (if handed ev then 0 else 1)
     \<and> link_recv st' = link_recv st + (if accepted ev then 1 else 0)
     \<and> link_drop st' = link_drop st + (if accepted ev then 0 else 1)"
proof (cases "alloc ev = []")
  case True
  then show ?thesis
    by (simp add: poll_body_def handed_def accepted_def)
next
  case False
  have "\<exists>p'. copy_loop (rx_buf st) 0 (drop_padding opts (alloc ev)) = Some p'"
    using assms by (intro copy_loop_fits) (simp_all add: alloc_fits_def Let_def)
  then obtain p' where "copy_loop (rx_buf st) 0 (drop_padding opts (alloc ev)) = Some p'"
    by blast
  with False show ?thesis
    by (simp add: poll_body_def Let_def handed_def accepted_def)
qed

text \<open>
  The loop over frames that are all available, followed by a read that reports no data:
  it returns, and the counters add up over the frames.
\<close>
lemma poll_loop_drains:
  assumes "list_all (\<lambda>ev. rd_ret ev = 0) frames" and "rd_ret fin \<noteq> 0"
    and "list_all (alloc_fits opts m) frames" and "m \<le> length (rx_buf st)"
  shows "\<exists>st'. poll_loop opts (frames @ fin # rest) n st = Inr st'
     \<and> eoi_count st' = eoi_count st
     \<and> length (net_reads st') = length (net_reads st) + length frames + 1
     \<and> length (callbacks st') = length (callbacks st) + length (filter handed frames)
     \<and> link_memerr st' = link_memerr st + length (filter (\<lambda>ev. \<not> handed ev) frames)
     \<and> link_recv st' = link_recv st + length (filter accepted frames)
     \<and> link_drop st' = link_drop st + length (filter (\<lambda>ev. \<not> accepted ev) frames)"
  using assms
proof (induction frames arbitrary: n st)
  case Nil
  then show ?case
    by (simp add: uhyve_net_read_sync_def)
next
  case (Cons ev evs)
  define st1 where "st1 = st\<lparr>net_reads := net_reads st @ [n],
         rx_buf := rd_data ev @ drop (length (rd_data ev)) (rx_buf st)\<rparr>"
  have m1: "m \<le> length (rx_buf st1)"
    using Cons.prems(4) by (simp add: st1_def)
  have fit: "alloc_fits opts m ev"
    using Cons.prems(3) by simp
  from poll_body_fits [OF fit m1, of "rd_len ev"] obtain st2 where
    b: "poll_body opts ev (rd_len ev) st1 = Inr (rd_len ev + int (ETH_PAD_SIZE opts), st2)"
    and f: "rx_buf st2 = rx_buf st1" "eoi_count st2 = eoi_count st1"
      "net_reads st2 = net_reads st1"
      "length (callbacks st2) = length (callbacks st1) + (if handed ev then 1 else 0)"
      "link_memerr st2 = link_memerr st1 + (if handed ev then 0 else 1)"
      "link_recv st2 = link_recv st1 + (if accepted ev then 1 else 0)"
      "link_drop st2 = link_drop st1 + (if accepted ev then 0 else 1)"
    by blast
  have m2: "m \<le> length (rx_buf st2)"
    using m1 f(1) by simp
  have step: "poll_loop opts ((ev # evs) @ fin # rest) n st
      = poll_loop opts (evs @ fin # rest) (rd_len ev + int (ETH_PAD_SIZE opts)) st2"
    using Cons.prems(1) b by (simp add: uhyve_net_read_sync_def st1_def)
  from Cons.IH [OF _ Cons.prems(2) _ m2, of "rd_len ev + int (ETH_PAD_SIZE opts)"] Cons.prems(1,3)
  obtain st' where
    r: "poll_loop opts (evs @ fin # rest) (rd_len ev + int (ETH_PAD_SIZE opts)) st2 = Inr st'"
      "eoi_count st' = eoi_count st2"
      "length (net_reads st') = length (net_reads st2) + length evs + 1"
      "length (callbacks st') = length (callbacks st2) + length (filter handed evs)"
      "link_memerr st' = link_memerr st2 + length (filter (\<lambda>ev. \<not> handed ev) evs)"
      "link_recv st' = link_recv st2 + length (filter accepted evs)"
      "link_drop st' = link_drop st2 + length (filter (\<lambda>ev. \<not> accepted ev) evs)"
    by auto
  have s1: "eoi_count st1 = eoi_count st" "length (net_reads st1) = length (net_reads st) + 1"
    "callbacks st1 = callbacks st" "link_memerr st1 = link_memerr st"
    "link_recv st1 = link_recv st" "link_drop st1 = link_drop st"
    by (simp_all add: st1_def)
  show ?case
    unfolding step using r f s1 by simp
qed

text \<open>
  Claim C4, as amended. An invocation of the receive poll after initialisation
  (\<^verbatim>\<open>uhyve_net_init_ok\<close> set), in which the hypervisor delivers any number of frames
  (none, one or many) and then reports no data, and in which every allocated chain
  fits the receive buffer, returns and has acknowledged the interrupt exactly once. It
  issued one read per frame and one more, it handed one chain to the worker thread for
  every frame whose allocation succeeded, and it counted a memory error for every
  other frame; a frame is counted as received when the hand-off was accepted and as
  dropped otherwise.
\<close>
theorem uhyve_netif_poll_acknowledges_once:
  assumes "uhyve_net_init_ok st \<noteq> 0"
    and "list_all (\<lambda>ev. rd_ret ev = 0) frames" and "rd_ret fin \<noteq> 0"
    and "list_all (alloc_fits opts (length (rx_buf st))) frames"
  shows "\<exists>st'. uhyve_netif_poll opts (frames @ fin # rest) st = Inr st'
     \<and> eoi_count st' = eoi_count st + 1
     \<and> length (net_reads st') = length (net_reads st) + length frames + 1
     \<and> length (callbacks st') = length (callbacks st) + length (filter handed frames)
     \<and> link_memerr st' = link_memerr st + length (filter (\<lambda>ev. \<not> handed ev) frames)
     \<and> link_recv st' = link_recv st + length (filter accepted frames)
     \<and> link_drop st' = link_drop st + length (filter (\<lambda>ev. \<not> accepted ev) frames)"
proof -
  from poll_loop_drains [OF assms(2,3,4) order_refl, where rest = rest and n = "int (RX_BUF_LEN opts)"]
  obtain st1 where l: "poll_loop opts (frames @ fin # rest) (int (RX_BUF_LEN opts)) st = Inr st1"
     "eoi_count st1 = eoi_count st"
     "length (net_reads st1) = length (net_reads st) + length frames + 1"
     "length (callbacks st1) = length (callbacks st) + length (filter handed frames)"
     "link_memerr st1 = link_memerr st + length (filter (\<lambda>ev. \<not> handed ev) frames)"
     "link_recv st1 = link_recv st + length (filter accepted frames)"
     "link_drop st1 = link_drop st + length (filter (\<lambda>ev. \<not> accepted ev) frames)"
    by auto
  then show ?thesis
    using assms(1) by (simp add: uhyve_netif_poll_def eoi_def)
qed

theorem uhyve_netif_poll_acknowledges_once_witness:
  "\<exists>st'. uhyve_netif_poll hermit_opts
       ([small_frame [small_pbuf] ERR_OK, small_frame [] ERR_OK, small_frame [small_pbuf] ERR_MEM]
          @ no_data # []) ready_state = Inr st'
     \<and> eoi_count st' = 1
     \<and> length (net_reads st') = 4
     \<and> length (callbacks st') = 2
     \<and> link_memerr st' = 1
     \<and> link_recv st' = 1
     \<and> link_drop st' = 2"
  using uhyve_netif_poll_acknowledges_once [of ready_state
      "[small_frame [small_pbuf] ERR_OK, small_frame [] ERR_OK, small_frame [small_pbuf] ERR_MEM]"
      no_data hermit_opts "[]"]
  by (auto simp add: ready_state_def boot_state_def no_data_def small_frame_def small_pbuf_def
      hermit_opts_def alloc_fits_def drop_padding_def handed_def accepted_def)

text \<open>
  The claim as stated, for every invocation, fails before initialisation: the guard at
  the head of \<^verbatim>\<open>uhyve_netif_poll\<close> returns without reading and without calling
  \<^verbatim>\<open>eoi\<close>.
\<close>
theorem uhyve_netif_poll_before_init:
  "uhyve_netif_poll hermit_opts [no_data] boot_state = Inr boot_state
   \<and> eoi_count boot_state = 0"
  by (simp add: uhyve_netif_poll_def boot_state_def)

text \<open>
  In general: before initialisation the poll returns at once, in the state it was
  called in, whatever the hypervisor holds.
\<close>

lemma uhyve_netif_poll_not_initialised:
  "uhyve_net_init_ok st = 0 \<Longrightarrow> uhyve_netif_poll opts evs st = Inr st"
  by (simp add: uhyve_netif_poll_def)

text \<open>
  Claim C9. When \<^verbatim>\<open>pbuf_alloc\<close> fails for a received frame, the pass counts one
  memory error and one drop, hands nothing to the worker thread and frees nothing, and
  the loop goes on with the next read: the run from this frame on is the run over the
  remaining answers from the state that differs only in the logged read, the
  overwritten receive buffer and the two counters.
\<close>
theorem poll_loop_alloc_failure:
  assumes "rd_ret ev = 0" and "alloc ev = []"
  shows "poll_loop opts (ev # evs) n st =
     poll_loop opts evs (rd_len ev + int (ETH_PAD_SIZE opts))
       (st\<lparr>net_reads := net_reads st @ [n],
           rx_buf := rd_data ev @ drop (length (rd_data ev)) (rx_buf st),
           link_memerr := link_memerr st + 1,
           link_drop := link_drop st + 1\<rparr>)"
  using assms by (simp add: uhyve_net_read_sync_def poll_body_def)

theorem poll_loop_alloc_failure_witness:
  "poll_loop hermit_opts [small_frame [] ERR_OK, no_data] 2048 ready_state =
     Inr (ready_state\<lparr>net_reads := [2048, 3],
           rx_buf := [1, 2, 3] @ replicate 2061 0,
           link_memerr := 1, link_drop := 1\<rparr>)"
  using poll_loop_alloc_failure [of "small_frame [] ERR_OK" hermit_opts "[no_data]" 2048 ready_state]
  by (simp add: small_frame_def no_data_def hermit_opts_def uhyve_net_read_sync_def
      ready_state_def boot_state_def)

text \<open>
  Where the copy loop is exact: as long as the lengths of all buffers before the last
  stay below 256 in sum, the offset does not wrap, and the first \<^verbatim>\<open>len\<close> bytes of
  the buffers of the chain, one after the other, are the bytes of the receive buffer
  from the starting offset on.
\<close>

lemma memcpy_take:
  "memcpy dst src n = Some bytes \<Longrightarrow> take n bytes = take n src \<and> n \<le> length src"
  by (auto simp add: memcpy_def split: if_splits)

lemma copy_loop_exact:
  assumes "copy_loop rx pos p = Some p'"
    and "unat pos + sum_list (map (\<lambda>q. unat (len q)) (butlast p)) < 256"
  shows "concat (map (\<lambda>q. take (unat (len q)) (payload q)) p')
       = take (sum_list (map (\<lambda>q. unat (len q)) p)) (drop (unat pos) rx)"
  using assms
proof (induction p arbitrary: pos p')
  case Nil
  then show ?case by simp
next
  case (Cons q qs)
  from Cons.prems(1) obtain bytes qs' where
    m: "memcpy (payload q) (drop (unat pos) rx) (unat (len q)) = Some bytes"
    and c: "copy_loop rx (pos + ucast (len q)) qs = Some qs'"
    and p': "p' = q\<lparr>payload := bytes\<rparr> # qs'"
    by (auto split: option.splits)
  note t = memcpy_take [OF m]
  show ?case
  proof (cases "qs = []")
    case True
    with c have "qs' = []" by simp
    with True t show ?thesis by (simp add: p')
  next
    case False
    then have b: "unat pos + unat (len q) + sum_list (map (\<lambda>q. unat (len q)) (butlast qs)) < 256"
      using Cons.prems(2) by simp
    then have small: "unat (len q) < 256" "unat pos + unat (len q) < 256"
      by simp_all
    have "unat (ucast (len q) :: u8) = unat (len q)"
      using small(1) by (simp add: unsigned_ucast_eq take_bit_nat_eq_self)
    then have u: "unat (pos + ucast (len q)) = unat pos + unat (len q)"
      using small(2) by (simp add: unat_word_ariths)
    have "concat (map (\<lambda>q. take (unat (len q)) (payload q)) qs')
       = take (sum_list (map (\<lambda>q. unat (len q)) qs)) (drop (unat (pos + ucast (len q))) rx)"
      using b by (intro Cons.IH [OF c]) (simp add: u)
    then show ?thesis
      using t by (simp add: p' u take_add add.commute)
  qed
qed

text \<open>
  Claim C2 fails on the code. The offset \<^verbatim>\<open>pos\<close> is a \<^verbatim>\<open>uint8_t\<close>: after a
  buffer of 256 bytes it is 0 again, and the second buffer of the chain receives the
  frame's first byte instead of its 257th. The receive buffer starts with 256 times
  \<open>0xAA\<close> and then \<open>0xBB\<close>, while the chain handed to the worker thread holds 257
  times \<open>0xAA\<close>.
\<close>

theorem uhyve_netif_poll_copy_wraps:
  "\<exists>st'. uhyve_netif_poll hermit_opts [frame257, no_data] ready_state = Inr st'
     \<and> callbacks st' = [[\<lparr>payload = replicate 256 0xAA, len = 256, tot_len = 257\<rparr>,
                          \<lparr>payload = [0xAA], len = 1, tot_len = 1\<rparr>]]
     \<and> take 257 (rx_buf st') = replicate 256 0xAA @ [0xBB]
     \<and> concat (map payload (hd (callbacks st'))) \<noteq> take 257 (rx_buf st')"
  by (simp add: uhyve_netif_poll_def ready_state_def boot_state_def frame257_def no_data_def
      hermit_opts_def uhyve_net_read_sync_def poll_body_def drop_padding_def reclaim_padding_def
      memcpy_def eoi_def)

section \<open>Properties of the operating-system layer\<close>

subsection \<open>The socket shim\<close>

text \<open>
  \<^verbatim>\<open>poll\<close> tests \<^verbatim>\<open>if (ret)\<close> and ends in \<^verbatim>\<open>return 0\<close>: it returns 0 when the
  stack returned 0 and \<open>-1\<close> for every other result of the stack.
\<close>

lemma poll_result:
  "fst (poll lwip_poll fds nfds timeout getreent) =
     (if fst (lwip_poll fds nfds timeout) = 0 then 0 else - 1)"
  by (simp add: poll_def split: prod.splits)

text \<open>The sibling \<^verbatim>\<open>select\<close> returns a positive count of the stack as it is.\<close>

lemma select_ready_count:
  "select (\<lambda>args. (1, e)) args getreent = (1, getreent)"
  by (simp add: select_def)

text \<open>
  Claim C1 fails on the code. When the stack reports one ready descriptor
  (\<^verbatim>\<open>lwip_poll\<close> returns 1), \<^verbatim>\<open>poll\<close> returns \<open>-1\<close> and copies the stack's error
  code into the process-visible location, where the claim has it return 1.
\<close>

theorem poll_hides_ready_count:
  "poll (\<lambda>fds nfds timeout. (1, e)) fds nfds timeout getreent = (- 1, e)"
  by (simp add: poll_def)

subsection \<open>Mailboxes\<close>

text \<open>\<^verbatim>\<open>sys_mbox_new\<close> never reads its \<^verbatim>\<open>size\<close> argument.\<close>

lemma sys_mbox_new_size:
  "sys_mbox_new mbox_init mb size1 used = sys_mbox_new mbox_init mb size2 used"
  by (simp add: sys_mbox_new_def)

text \<open>
  Claim C10. When the kernel's initialisation of the mailbox fails, \<^verbatim>\<open>sys_mbox_new\<close>
  returns \<^verbatim>\<open>ERR_MEM\<close>, and the mailbox is left marked valid with the live-object
  statistic incremented: the flag is set and the statistic counted before the kernel
  is called, and the error path undoes neither. \<^verbatim>\<open>sys_mbox_valid\<close> on the mailbox
  then returns \<^verbatim>\<open>TRUE\<close>.
\<close>

theorem sys_mbox_new_error_leaves_valid:
  assumes "fst (mbox_init (mailbox mb)) \<noteq> 0"
  shows "\<exists>mb'. sys_mbox_new mbox_init (Some mb) size' used = (ERR_MEM, Some mb', used + 1)
     \<and> valid mb' = TRUE \<and> sys_mbox_valid (Some mb') = TRUE"
  using assms
  by (cases "mbox_init (mailbox mb)") (simp add: sys_mbox_new_def sys_mbox_valid_def)

theorem sys_mbox_new_error_leaves_valid_witness:
  "sys_mbox_valid (Some \<lparr>mailbox = (), valid = FALSE\<rparr>) = FALSE
   \<and> (\<exists>mb'. sys_mbox_new (\<lambda>m. (- 22, m)) (Some \<lparr>mailbox = (), valid = FALSE\<rparr>) 16 0
          = (ERR_MEM, Some mb', 1)
        \<and> valid mb' = TRUE \<and> sys_mbox_valid (Some mb') = TRUE)"
  using sys_mbox_new_error_leaves_valid [of "\<lambda>m. (- 22, m)" "\<lparr>mailbox = (), valid = FALSE\<rparr>" 16 0]
  by (simp add: sys_mbox_valid_def)

text \<open>While the kernel's mailbox has room, every non-blocking post is accepted.\<close>

lemma trypost_all_room:
  "length (buffer (mailbox mbox)) + length msgs \<le> capacity (mailbox mbox) \<Longrightarrow>
   trypost_all mailbox_ptr_trypost mbox msgs =
     (replicate (length msgs) ERR_OK,
      mbox\<lparr>mailbox := (mailbox mbox)\<lparr>buffer := buffer (mailbox mbox) @ msgs\<rparr>\<rparr>)"
proof (induction msgs arbitrary: mbox)
  case Nil
  then show ?case by simp
next
  case (Cons msg msgs)
  let ?m1 = "mbox\<lparr>mailbox := (mailbox mbox)\<lparr>buffer := buffer (mailbox mbox) @ [msg]\<rparr>\<rparr>"
  have p: "sys_mbox_trypost mailbox_ptr_trypost mbox msg = (ERR_OK, ?m1)"
    using Cons.prems by (simp add: sys_mbox_trypost_def mailbox_ptr_trypost_def)
  have "length (buffer (mailbox ?m1)) + length msgs \<le> capacity (mailbox ?m1)"
    using Cons.prems by simp
  from Cons.IH [OF this] p show ?case
    by simp
qed

lemma trypost_all_append:
  "trypost_all tp mbox (xs @ ys) =
     (case trypost_all tp mbox xs of
        (es, mbox1) \<Rightarrow> (case trypost_all tp mbox1 ys of (fs, mbox2) \<Rightarrow> (es @ fs, mbox2)))"
  by (induction xs arbitrary: mbox) (simp_all split: prod.splits)

text \<open>
  Claim C5 fails on the code. Whatever the kernel's capacity \<open>cap\<close> is, a mailbox
  created with the requested size \<open>cap + 1\<close> is created without error, accepts
  \<open>cap\<close> non-blocking posts and answers the next one, the \<open>cap + 1\<close>-th outstanding
  post, with \<^verbatim>\<open>ERR_MEM\<close>: its capacity is the kernel's and not at least the requested
  size.
\<close>

theorem sys_mbox_capacity_not_from_size:
  "\<exists>m1. sys_mbox_new (mailbox_ptr_init cap) (Some mb) (int cap + 1) used
          = (ERR_OK, Some m1, used + 1)
     \<and> fst (trypost_all mailbox_ptr_trypost m1 (replicate (cap + 1) msg))
          = replicate cap ERR_OK @ [ERR_MEM]"
proof -
  define m1 where "m1 = mb\<lparr>valid := TRUE, mailbox := \<lparr>buffer = [], capacity = cap\<rparr>\<rparr>"
  have n: "sys_mbox_new (mailbox_ptr_init cap) (Some mb) (int cap + 1) used
        = (ERR_OK, Some m1, used + 1)"
    by (simp add: sys_mbox_new_def mailbox_ptr_init_def m1_def)
  have a: "trypost_all mailbox_ptr_trypost m1 (replicate cap msg) =
     (replicate cap ERR_OK, m1\<lparr>mailbox := (mailbox m1)\<lparr>buffer := replicate cap msg\<rparr>\<rparr>)"
    using trypost_all_room [of m1 "replicate cap msg"] by (simp add: m1_def)
  have r: "replicate (cap + 1) msg = replicate cap msg @ [msg]"
    by (simp add: replicate_append_same)
  have "fst (trypost_all mailbox_ptr_trypost m1 (replicate (cap + 1) msg))
      = replicate cap ERR_OK @ [ERR_MEM]"
    unfolding r trypost_all_append a
    by (simp add: sys_mbox_trypost_def mailbox_ptr_trypost_def m1_def)
  with n show ?thesis by blast
qed

end
